theory Spec2Isabelle
  imports Main "HOL-Library.Sublist"
begin

section \<open>The plugin lifecycle orchestrator of core/agent\_core.go\<close>

text \<open>
  The Agent brings a list of plugins through two start-up phases (\<open>Init\<close>, then the
  optional \<open>AfterInit\<close>) and closes them in reverse order. Plugin methods are opaque
  to the Agent and have effects of their own, so the model threads an abstract world
  \<open>'w\<close> through every plugin call: a method maps the world to its returned error
  (\<open>None\<close> is Go's \<open>nil\<close>) and the new world. A Go \<open>error\<close> is represented by the
  text its \<open>Error()\<close> method yields.
\<close>

subsection \<open>Data model\<close>

type_synonym err = string

type_synonym 'w meth = "'w \<Rightarrow> err option \<times> 'w"

text \<open>
  Modelled from the spec: the declarations of \<open>Plugin\<close>, \<open>PostInit\<close>, \<open>PluginName\<close> and
  \<open>NamedPlugin\<close> are not part of the sources at hand. Following section 3 of the
  specification, a plugin has a mandatory \<open>Init\<close>, an optional \<open>AfterInit\<close> (the Go
  type assertion \<open>plug.Plugin.(PostInit)\<close>) and an optional \<open>Close\<close>; a named plugin
  pairs a name with a plugin and, by embedding, offers the plugin's methods itself.
\<close>

record 'w Plugin =
  Init :: "'w meth"
  AfterInit :: "'w meth option"
  Close :: "'w meth option"

record 'w NamedPlugin =
  PluginName :: string
  Plugin :: "'w Plugin"

text \<open>
  The Agent holds \<open>[]*NamedPlugin\<close>, and \<open>calculateDiff\<close> compares these pointers.
  A pointer is an address into a heap of named plugins; the same address may occur
  more than once in a list, and two addresses may hold equal contents. The entries of
  a plugin list are taken to be valid (non-nil) pointers to plugins with a non-nil
  \<open>Plugin\<close> value.
\<close>

type_synonym ptr = nat

record startup =
  MaxStartupTime :: int
  initSuccess :: "ptr list"
  initDuration :: int
  afterInitSuccess :: "ptr list"
  afterInitDuration :: int
  currentlyProcessing :: string

record Agent = startup +
  plugins :: "ptr list"

text \<open>
  What the Agent's code reads but does not own: the heap of plugins, the monotonic clock
  behind \<open>time.Now\<close> and \<open>time.Since\<close> (a reading of the world, in nanoseconds; the
  durations are far from the limits of \<open>int64\<close>), and the two link-time variables.
\<close>

record 'w env =
  heap :: "ptr \<Rightarrow> 'w NamedPlugin"
  clock :: "'w \<Rightarrow> int"
  BuildVersion :: string
  BuildDate :: string

subsection \<open>Observable events\<close>

text \<open>
  Every effect of the Agent is appended to a trace: a plugin method call with the
  plugin's index in the list and the error it returned, an assignment to a bookkeeping
  field together with the Agent's value after it, and a call of the logger with its
  level, fields and message.
\<close>

datatype kind = KInit | KAfterInit | KClose

datatype field =
  FinitSuccess | FinitDuration | FafterInitSuccess | FafterInitDuration | FcurrentlyProcessing

datatype level = DebugLevel | InfoLevel | WarnLevel | ErrorLevel

datatype fval = FStr string | FInt int | FPlugins "ptr list"

datatype event =
  Call kind nat "err option"
| Assign field Agent
| Log level "(string \<times> fval) list" string

record 'w state =
  agent :: Agent
  world :: 'w
  trace :: "event list"

definition assign :: "field \<Rightarrow> (Agent \<Rightarrow> Agent) \<Rightarrow> 'w state \<Rightarrow> 'w state" where
  "assign f upd s =
     (let a = upd (agent s) in s\<lparr>agent := a, trace := trace s @ [Assign f a]\<rparr>)"

definition logmsg :: "level \<Rightarrow> (string \<times> fval) list \<Rightarrow> string \<Rightarrow> 'w state \<Rightarrow> 'w state" where
  "logmsg l fs msg s = s\<lparr>trace := trace s @ [Log l fs msg]\<rparr>"

definition invoke :: "kind \<Rightarrow> nat \<Rightarrow> 'w meth \<Rightarrow> 'w state \<Rightarrow> err option \<times> 'w state" where
  "invoke k i m s =
     (case m (world s) of (r, w) \<Rightarrow> (r, s\<lparr>world := w, trace := trace s @ [Call k i r]\<rparr>))"

subsection \<open>Formatting\<close>

text \<open>The verb \<open>%d\<close> of an \<open>int64\<close>: decimal digits, with a minus sign when negative.\<close>

fun digits :: "nat \<Rightarrow> string" where
  "digits n =
     (if n < 10 then [''0123456789'' ! n]
      else digits (n div 10) @ [''0123456789'' ! (n mod 10)])"

declare digits.simps [simp del]

definition show_int :: "int \<Rightarrow> string" where
  "show_int i = (if i < 0 then ''-'' @ digits (nat (- i)) else digits (nat i))"

text \<open>The five format constants, each applied to its arguments as \<open>fmt.Sprintf\<close> does.\<close>

definition logErrorFmt :: "string \<Rightarrow> err \<Rightarrow> int \<Rightarrow> string" where
  "logErrorFmt name e d =
     ''plugin '' @ name @ '': init error '' @ [CHR 0x27] @ e @ [CHR 0x27] @
     '', duration '' @ show_int d"

definition logSuccessFmt :: "string \<Rightarrow> string" where
  "logSuccessFmt name = ''plugin '' @ name @ '': init success''"





subsection \<open>NewAgent and calculateDiff\<close>

definition NewAgent :: "int \<Rightarrow> ptr list \<Rightarrow> Agent" where
  "NewAgent maxStartup ps =
     \<lparr>MaxStartupTime = maxStartup, initSuccess = [], initDuration = 0,
      afterInitSuccess = [], afterInitDuration = 0, currentlyProcessing = [],
      plugins = ps\<rparr>"

text \<open>
  The inner loop of \<open>calculateDiff\<close> runs over the whole of \<open>initialized\<close> (it has no
  \<open>break\<close>) and sets \<open>found\<close> at a pointer equal to \<open>plugin\<close>; the outer loop appends
  the plugins that were not found.
\<close>

definition found_in :: "ptr \<Rightarrow> ptr list \<Rightarrow> bool" where
  "found_in plugin initialized =
     foldl (\<lambda>found i. if plugin = i then True else found) False initialized"

definition calculateDiff :: "Agent \<Rightarrow> ptr list \<Rightarrow> ptr list" where
  "calculateDiff a initialized =
     foldl (\<lambda>diff plugin. if \<not> found_in plugin initialized then diff @ [plugin] else diff)
       [] (plugins a)"

subsection \<open>Stop\<close>

text \<open>
  Modelled from the spec: \<open>safeclose.Close\<close> (package utils/safeclose) is not part of
  the sources at hand. Following sections 4.2 and 4.4 of the specification it invokes
  the release operation of its argument if the argument has one and returns what that
  returns, and it returns no error otherwise. The index is that of the plugin in the
  Agent's list; it labels the event only.
\<close>

definition safeclose_Close :: "nat \<Rightarrow> 'w Plugin \<Rightarrow> 'w state \<Rightarrow> err option \<times> 'w state" where
  "safeclose_Close i obj s =
     (case Close obj of None \<Rightarrow> (None, s) | Some m \<Rightarrow> invoke KClose i m s)"



subsection \<open>Phase 1: initPlugins\<close>

text \<open>
  One pass of the rollback loop \<open>for j := i; j >= 0; j--\<close>: the pair at index \<open>j\<close> is
  closed (the plugin's own \<open>Close\<close>, promoted to the pair) and an error is logged as a
  warning, nothing more.
\<close>

definition rollbackStep :: "'w env \<Rightarrow> nat \<Rightarrow> 'w state \<Rightarrow> 'w state" where
  "rollbackStep E j s =
     (let np = heap E (plugins (agent s) ! j) in
      case safeclose_Close j (Plugin np) s of
        (None, s1) \<Rightarrow> s1
      | (Some m, s1) \<Rightarrow> logmsg WarnLevel [] (''err closing '' @ PluginName np @ '' '' @ m) s1)"

fun rollback :: "'w env \<Rightarrow> nat \<Rightarrow> 'w state \<Rightarrow> 'w state" where
  "rollback E 0 s = rollbackStep E 0 s"
| "rollback E (Suc j) s = rollback E j (rollbackStep E (Suc j) s)"

text \<open>
  The loop \<open>for i, plug := range agent.plugins\<close>: \<open>i\<close> is the index of \<open>plug\<close>, and the
  list argument holds the entries from \<open>plug\<close> on.
\<close>

fun initLoop :: "'w env \<Rightarrow> int \<Rightarrow> nat \<Rightarrow> ptr list \<Rightarrow> 'w state \<Rightarrow> err option \<times> 'w state" where
  "initLoop E startTime i [] s = (None, s)"
| "initLoop E startTime i (plug # rest) s =
     (let np = heap E plug;
          s1 = assign FcurrentlyProcessing
                 (\<lambda>a. a\<lparr>currentlyProcessing := PluginName np @ '' Init()''\<rparr>) s;
          (err, s2) = invoke KInit i (Init (Plugin np)) s1
      in case err of
           Some m \<Rightarrow>
             (let s3 = rollback E i s2;
                  initErrTime = clock E (world s3) - startTime
              in (Some (logErrorFmt (PluginName np) m initErrTime), s3))
         | None \<Rightarrow>
             (let s3 = logmsg InfoLevel [] (logSuccessFmt (PluginName np)) s2;
                  s4 = assign FinitSuccess (\<lambda>a. a\<lparr>initSuccess := initSuccess a @ [plug]\<rparr>) s3
              in initLoop E startTime (Suc i) rest s4))"

definition initPlugins :: "'w env \<Rightarrow> 'w state \<Rightarrow> err option \<times> 'w state" where
  "initPlugins E s =
     (let startTime = clock E (world s) in
      case initLoop E startTime 0 (plugins (agent s)) s of
        (Some e, s1) \<Rightarrow> (Some e, s1)
      | (None, s1) \<Rightarrow>
          (None, assign FinitDuration
                   (\<lambda>a. a\<lparr>initDuration := clock E (world s1) - startTime\<rparr>) s1))"

subsection \<open>Phase 2: handleAfterInit\<close>



subsection \<open>Start\<close>




section \<open>Vocabulary of the properties\<close>

subsection \<open>Projections of a trace\<close>

text \<open>The events that a run from \<open>s\<close> to \<open>s'\<close> has appended.\<close>

definition produced :: "'w state \<Rightarrow> 'w state \<Rightarrow> event list" where
  "produced s s' = drop (length (trace s)) (trace s')"

text \<open>The plugin method calls, in order, without their results.\<close>

fun calls :: "event list \<Rightarrow> (kind \<times> nat) list" where
  "calls [] = []"
| "calls (Call k i r # es) = (k, i) # calls es"
| "calls (Assign f a # es) = calls es"
| "calls (Log l fs msg # es) = calls es"

text \<open>The \<open>Close\<close> calls that returned an error: index and error, in order.\<close>

fun closeFailures :: "event list \<Rightarrow> (nat \<times> err) list" where
  "closeFailures [] = []"
| "closeFailures (Call k i r # es) =
     (case (k, r) of (KClose, Some m) \<Rightarrow> (i, m) # closeFailures es | _ \<Rightarrow> closeFailures es)"
| "closeFailures (Assign f a # es) = closeFailures es"
| "closeFailures (Log l fs msg # es) = closeFailures es"

text \<open>The messages logged as warnings, in order.\<close>

fun warnings :: "event list \<Rightarrow> string list" where
  "warnings [] = []"
| "warnings (Call k i r # es) = warnings es"
| "warnings (Assign f a # es) = warnings es"
| "warnings (Log l fs msg # es) = (if l = WarnLevel then msg # warnings es else warnings es)"

text \<open>The values the Agent takes, one after each assignment, in order.\<close>

fun snapshots :: "event list \<Rightarrow> Agent list" where
  "snapshots [] = []"
| "snapshots (Call k i r # es) = snapshots es"
| "snapshots (Assign f a # es) = a # snapshots es"
| "snapshots (Log l fs msg # es) = snapshots es"

text \<open>
  The assignments to \<open>currentlyProcessing\<close> interleaved with the calls of one kind of
  method, in order.
\<close>

datatype obs = Marker string | Called nat

fun view :: "kind \<Rightarrow> event list \<Rightarrow> obs list" where
  "view k [] = []"
| "view k (Call k' i r # es) = (if k' = k then Called i # view k es else view k es)"
| "view k (Assign f a # es) =
     (if f = FcurrentlyProcessing then Marker (currentlyProcessing a) # view k es
      else view k es)"
| "view k (Log l fs msg # es) = view k es"

subsection \<open>Behaviour of the plugins\<close>

text \<open>
  What a plugin call returns may depend on the world it runs in, so that a statement such
  as ``the first \<open>k\<close> plugins initialise without error'' is a statement about the calls made
  in sequence. \<open>initsOk E ps w\<close> is the world after \<open>Init\<close> has returned \<open>nil\<close> for every
  plugin of \<open>ps\<close> in turn, starting in \<open>w\<close>, and \<open>None\<close> if one of them returns an error.
\<close>

fun initsOk :: "'w env \<Rightarrow> ptr list \<Rightarrow> 'w \<Rightarrow> 'w option" where
  "initsOk E [] w = Some w"
| "initsOk E (p # ps) w =
     (case Init (Plugin (heap E p)) w of
        (None, w') \<Rightarrow> initsOk E ps w'
      | (Some e, w') \<Rightarrow> None)"

text \<open>
  The same for the second phase: the plugins of \<open>ps\<close> that implement \<open>AfterInit\<close> are
  called in turn, the others are passed over.
\<close>

fun afterInitsOk :: "'w env \<Rightarrow> ptr list \<Rightarrow> 'w \<Rightarrow> 'w option" where
  "afterInitsOk E [] w = Some w"
| "afterInitsOk E (p # ps) w =
     (case AfterInit (Plugin (heap E p)) of
        None \<Rightarrow> afterInitsOk E ps w
      | Some m \<Rightarrow>
          (case m w of
             (None, w') \<Rightarrow> afterInitsOk E ps w'
           | (Some e, w') \<Rightarrow> None))"

definition hasClose :: "'w env \<Rightarrow> Agent \<Rightarrow> nat \<Rightarrow> bool" where
  "hasClose E a i \<longleftrightarrow> Close (Plugin (heap E (plugins a ! i))) \<noteq> None"

definition hasAfterInit :: "'w env \<Rightarrow> Agent \<Rightarrow> nat \<Rightarrow> bool" where
  "hasAfterInit E a i \<longleftrightarrow> AfterInit (Plugin (heap E (plugins a ! i))) \<noteq> None"

definition nameAt :: "'w env \<Rightarrow> Agent \<Rightarrow> nat \<Rightarrow> string" where
  "nameAt E a i = PluginName (heap E (plugins a ! i))"

text \<open>The warning that the rollback of phase 1 logs for a failed \<open>Close\<close>.\<close>

definition closeWarning :: "'w env \<Rightarrow> Agent \<Rightarrow> nat \<times> err \<Rightarrow> string" where
  "closeWarning E a = (\<lambda>(i, m). ''err closing '' @ nameAt E a i @ '' '' @ m)"

text \<open>
  What is to be seen of the marker and the calls while the plugins at the indices
  \<open>i, \<dots>, n - 1\<close> pass through a phase: in phase 1 the marker is set and \<open>Init\<close> is
  called; in phase 2 the marker is set, and \<open>AfterInit\<close> is called where it exists.
\<close>

definition initView :: "'w env \<Rightarrow> Agent \<Rightarrow> nat \<Rightarrow> nat \<Rightarrow> obs list" where
  "initView E a i n =
     concat (map (\<lambda>j. [Marker (nameAt E a j @ '' Init()''), Called j]) [i..<n])"

definition afterInitView :: "'w env \<Rightarrow> Agent \<Rightarrow> nat \<Rightarrow> nat \<Rightarrow> obs list" where
  "afterInitView E a i n =
     concat (map (\<lambda>j. Marker (nameAt E a j @ '' AfterInit()'') #
                        (if hasAfterInit E a j then [Called j] else [])) [i..<n])"

subsection \<open>The aggregated error of Stop, as the specification words it\<close>

fun joinWith :: "string \<Rightarrow> string list \<Rightarrow> string" where
  "joinWith d [] = []"
| "joinWith d [x] = x"
| "joinWith d (x # y # ys) = x @ d @ joinWith d (y # ys)"


subsection \<open>A concrete environment for instances\<close>

text \<open>
  Plugins over a world that is a counter of nanoseconds: every call takes one nanosecond
  and returns a fixed result. \<open>demoPlugin\<close> takes the name, the result of \<open>Init\<close>, and
  the results of \<open>AfterInit\<close> and \<open>Close\<close> where the plugin has them. The heap of
  \<open>demoEnv\<close> holds the given plugins at the addresses \<open>0, 1, \<dots>\<close>, and \<open>demoState n\<close>
  is a new Agent for the first \<open>n\<close> of them.
\<close>

definition demoPlugin ::
  "string \<Rightarrow> err option \<Rightarrow> err option option \<Rightarrow> err option option \<Rightarrow> nat NamedPlugin" where
  "demoPlugin name i a c =
     \<lparr>PluginName = name,
      Plugin = \<lparr>Init = (\<lambda>w. (i, Suc w)),
                AfterInit = map_option (\<lambda>r w. (r, Suc w)) a,
                Close = map_option (\<lambda>r w. (r, Suc w)) c\<rparr>\<rparr>"

definition demoEnv :: "nat NamedPlugin list \<Rightarrow> nat env" where
  "demoEnv ps = \<lparr>heap = (\<lambda>p. ps ! p), clock = int, BuildVersion = ''v1'', BuildDate = ''today''\<rparr>"

definition demoState :: "nat \<Rightarrow> nat state" where
  "demoState n = \<lparr>agent = NewAgent 0 [0..<n], world = 0, trace = []\<rparr>"

section \<open>Properties\<close>

subsection \<open>The difference of the registered list and a completed list\<close>

lemma found_in_iff: "found_in p xs \<longleftrightarrow> p \<in> set xs"
proof -
  have "foldl (\<lambda>found i. if p = i then True else found) b xs \<longleftrightarrow> b \<or> p \<in> set xs" for b
    by (induction xs arbitrary: b) auto
  then show ?thesis by (simp add: found_in_def)
qed

lemma diff_loop_filter:
  "foldl (\<lambda>diff plugin. if \<not> found_in plugin S then diff @ [plugin] else diff) acc ps
     = acc @ filter (\<lambda>p. p \<notin> set S) ps"
  by (induction ps arbitrary: acc) (simp_all add: found_in_iff)

text \<open>
  Claim C9. \<open>calculateDiff\<close> returns exactly the registered plugins that are not in the
  given list \<open>S\<close>, in registration order; when \<open>S\<close> is drawn from the registered list,
  \<open>S\<close> and the result together cover the registered plugins and share none.
\<close>

theorem calculateDiff_partition:
  "calculateDiff a S = filter (\<lambda>p. p \<notin> set S) (plugins a) \<and>
   (set S \<subseteq> set (plugins a) \<longrightarrow>
      set S \<union> set (calculateDiff a S) = set (plugins a) \<and>
      set S \<inter> set (calculateDiff a S) = {})"
  by (auto simp: calculateDiff_def diff_loop_filter)

theorem calculateDiff_partition_witness:
  "set [4, 1::nat] \<subseteq> set (plugins (NewAgent 0 [1, 2, 4, 7])) \<and>
   calculateDiff (NewAgent 0 [1, 2, 4, 7]) [4, 1] = [2, 7] \<and>
   set [4, 1] \<union> set (calculateDiff (NewAgent 0 [1, 2, 4, 7]) [4, 1]) = {1, 2, 4, 7} \<and>
   set [4, 1] \<inter> set (calculateDiff (NewAgent 0 [1, 2, 4, 7]) [4, 1]) = {}"
  using calculateDiff_partition [of "NewAgent 0 [1, 2, 4, 7]" "[4, 1]"]
  by (auto simp: NewAgent_def)

lemma calls_append [simp]: "calls (xs @ ys) = calls xs @ calls ys"
  by (induction xs rule: calls.induct) auto
lemma closeFailures_append [simp]: "closeFailures (xs @ ys) = closeFailures xs @ closeFailures ys"
  by (induction xs rule: closeFailures.induct) (auto split: kind.splits option.splits)
lemma warnings_append [simp]: "warnings (xs @ ys) = warnings xs @ warnings ys"
  by (induction xs rule: warnings.induct) auto
lemma snapshots_append [simp]: "snapshots (xs @ ys) = snapshots xs @ snapshots ys"
  by (induction xs rule: snapshots.induct) auto
lemma view_append [simp]: "view k (xs @ ys) = view k xs @ view k ys"
  by (induction xs rule: view.induct) auto

lemma produced_eq: "trace s' = trace s @ evs \<Longrightarrow> produced s s' = evs"
  by (simp add: produced_def)

lemma assign_simps [simp]:
  "agent (assign f u s) = u (agent s)"
  "world (assign f u s) = world s"
  "trace (assign f u s) = trace s @ [Assign f (u (agent s))]"
  by (simp_all add: assign_def Let_def)

lemma logmsg_simps [simp]:
  "agent (logmsg l fs msg s) = agent s"
  "world (logmsg l fs msg s) = world s"
  "trace (logmsg l fs msg s) = trace s @ [Log l fs msg]"
  by (simp_all add: logmsg_def)

lemma invoke_simps [simp]:
  "fst (invoke k i m s) = fst (m (world s))"
  "agent (snd (invoke k i m s)) = agent s"
  "world (snd (invoke k i m s)) = snd (m (world s))"
  "trace (snd (invoke k i m s)) = trace s @ [Call k i (fst (m (world s)))]"
  by (simp_all add: invoke_def split: prod.splits)


lemma joinWith_cons: "xs \<noteq> [] \<Longrightarrow> joinWith d (x # xs) = x @ d @ joinWith d xs"
  by (cases xs) simp_all






subsection \<open>Phase 1\<close>

lemma rollbackStep_run:
  "\<exists>evs. trace (rollbackStep E j s) = trace s @ evs \<and>
     agent (rollbackStep E j s) = agent s \<and>
     calls evs = (if hasClose E (agent s) j then [(KClose, j)] else []) \<and>
     snapshots evs = [] \<and> view KInit evs = [] \<and> view KAfterInit evs = [] \<and>
     warnings evs = map (closeWarning E (agent s)) (closeFailures evs)"
proof (cases "Close (Plugin (heap E (plugins (agent s) ! j)))")
  case None
  then have "rollbackStep E j s = s"
    by (simp add: rollbackStep_def safeclose_Close_def)
  with None show ?thesis by (simp add: hasClose_def)
next
  case (Some m)
  show ?thesis
  proof (cases "fst (m (world s))")
    case None
    with Some have "rollbackStep E j s = snd (invoke KClose j m s)"
      by (auto simp: rollbackStep_def safeclose_Close_def invoke_def split: prod.splits)
    with Some None show ?thesis by (simp add: hasClose_def)
  next
    case (Some e)
    with \<open>Close (Plugin (heap E (plugins (agent s) ! j))) = Some m\<close>
    have "rollbackStep E j s =
        logmsg WarnLevel [] (''err closing '' @ nameAt E (agent s) j @ '' '' @ e)
          (snd (invoke KClose j m s))"
      by (auto simp: rollbackStep_def safeclose_Close_def invoke_def nameAt_def split: prod.splits)
    with Some \<open>Close (Plugin (heap E (plugins (agent s) ! j))) = Some m\<close>
    show ?thesis by (simp add: hasClose_def closeWarning_def)
  qed
qed

lemma rollback_run:
  "\<exists>evs. trace (rollback E j s) = trace s @ evs \<and>
     agent (rollback E j s) = agent s \<and>
     calls evs = map (Pair KClose) (filter (hasClose E (agent s)) (rev [0..<Suc j])) \<and>
     snapshots evs = [] \<and> view KInit evs = [] \<and> view KAfterInit evs = [] \<and>
     warnings evs = map (closeWarning E (agent s)) (closeFailures evs)"
proof (induction j arbitrary: s)
  case 0
  have "map (Pair KClose) (filter (hasClose E (agent s)) (rev [0..<Suc 0])) =
      (if hasClose E (agent s) 0 then [(KClose, 0)] else [])"
    by simp
  with rollbackStep_run [of E 0 s] show ?case
    by (simp only: rollback.simps)
next
  case (Suc j)
  from rollbackStep_run [of E "Suc j" s] obtain e1 where
    e1: "trace (rollbackStep E (Suc j) s) = trace s @ e1"
      "agent (rollbackStep E (Suc j) s) = agent s"
      "calls e1 = (if hasClose E (agent s) (Suc j) then [(KClose, Suc j)] else [])"
      "snapshots e1 = []" "view KInit e1 = []" "view KAfterInit e1 = []"
      "warnings e1 = map (closeWarning E (agent s)) (closeFailures e1)"
    by blast
  have unroll: "rollback E (Suc j) s = rollback E j (rollbackStep E (Suc j) s)"
    by simp
  from Suc.IH [of "rollbackStep E (Suc j) s"] obtain e2 where
    e2: "trace (rollback E j (rollbackStep E (Suc j) s)) = trace (rollbackStep E (Suc j) s) @ e2"
      "agent (rollback E j (rollbackStep E (Suc j) s)) = agent (rollbackStep E (Suc j) s)"
      "calls e2 = map (Pair KClose)
         (filter (hasClose E (agent (rollbackStep E (Suc j) s))) (rev [0..<Suc j]))"
      "snapshots e2 = []" "view KInit e2 = []" "view KAfterInit e2 = []"
      "warnings e2 = map (closeWarning E (agent (rollbackStep E (Suc j) s))) (closeFailures e2)"
    by blast
  have "trace (rollback E (Suc j) s) = trace s @ e1 @ e2"
    by (simp only: unroll e1(1) e2(1) append_assoc)
  moreover have "agent (rollback E (Suc j) s) = agent s"
    by (simp only: unroll e1(2) e2(2))
  moreover have "calls (e1 @ e2) =
      map (Pair KClose) (filter (hasClose E (agent s)) (rev [0..<Suc (Suc j)]))"
    by (simp add: e1(2,3) e2(3))
  moreover have "snapshots (e1 @ e2) = []" "view KInit (e1 @ e2) = []"
      "view KAfterInit (e1 @ e2) = []"
    by (simp_all add: e1 e2)
  moreover have "warnings (e1 @ e2) = map (closeWarning E (agent s)) (closeFailures (e1 @ e2))"
    by (simp add: e1(2,7) e2(7))
  ultimately show ?case by blast
qed

lemma rollback_agent [simp]: "agent (rollback E j s) = agent s"
  using rollback_run [of E j s] by blast

declare rollback.simps [simp del]

subsection \<open>Stop\<close>



declare initLoop.simps(2) [simp del]

lemma hasClose_cong: "plugins a = plugins b \<Longrightarrow> hasClose E a = hasClose E b"
  by (auto simp: hasClose_def fun_eq_iff)

lemma nameAt_cong: "plugins a = plugins b \<Longrightarrow> nameAt E a = nameAt E b"
  by (auto simp: nameAt_def fun_eq_iff)

lemma closeWarning_cong: "plugins a = plugins b \<Longrightarrow> closeWarning E a = closeWarning E b"
  by (simp add: closeWarning_def nameAt_cong [of a b])

lemma initView_cong: "plugins a = plugins b \<Longrightarrow> initView E a = initView E b"
  by (simp add: initView_def fun_eq_iff nameAt_cong [of a b])

lemma initView_Nil [simp]: "initView E a i i = []"
  by (simp add: initView_def)

lemma initView_Cons:
  "i < n \<Longrightarrow> initView E a i n =
     Marker (nameAt E a i @ '' Init()'') # Called i # initView E a (Suc i) n"
  by (simp add: initView_def upt_conv_Cons)

lemma initLoop_shape:
  assumes "drop i (plugins (agent s)) = ps"
  shows "\<exists>evs m. trace (snd (initLoop E t i ps s)) = trace s @ evs \<and> m \<le> length ps \<and>
     plugins (agent (snd (initLoop E t i ps s))) = plugins (agent s) \<and>
     afterInitSuccess (agent (snd (initLoop E t i ps s))) = afterInitSuccess (agent s) \<and>
     initSuccess (agent (snd (initLoop E t i ps s))) = initSuccess (agent s) @ take m ps \<and>
     (\<forall>a \<in> set (snapshots evs).
        plugins a = plugins (agent s) \<and> afterInitSuccess a = afterInitSuccess (agent s) \<and>
        (\<exists>j\<le>m. initSuccess a = initSuccess (agent s) @ take j ps)) \<and>
     (case fst (initLoop E t i ps s) of
        None \<Rightarrow>
          m = length ps \<and> calls evs = map (Pair KInit) [i..<i + m] \<and>
          view KInit evs = initView E (agent s) i (i + m) \<and>
          warnings evs = [] \<and> closeFailures evs = []
      | Some e \<Rightarrow>
          m < length ps \<and>
          calls evs = map (Pair KInit) [i..<i + m + 1] @
            map (Pair KClose) (filter (hasClose E (agent s)) (rev [0..<i + m + 1])) \<and>
          view KInit evs = initView E (agent s) i (i + m + 1) \<and>
          warnings evs = map (closeWarning E (agent s)) (closeFailures evs))"
  using assms
proof (induction ps arbitrary: i s)
  case Nil
  show ?case by simp
next
  case (Cons plug rest)
  define np where "np = heap E plug"
  define a1 where "a1 = (agent s)\<lparr>currentlyProcessing := PluginName np @ '' Init()''\<rparr>"
  define s1 where "s1 = assign FcurrentlyProcessing
                 (\<lambda>a. a\<lparr>currentlyProcessing := PluginName np @ '' Init()''\<rparr>) s"
  define err where "err = fst (Init (Plugin np) (world s))"
  define s2 where "s2 = snd (invoke KInit i (Init (Plugin np)) s1)"
  have at_i: "plugins (agent s) ! i = plug"
    using Cons.prems by (simp add: nth_via_drop)
  have name_i: "nameAt E (agent s) i = PluginName np"
    by (simp add: nameAt_def at_i np_def)
  have pl1: "plugins a1 = plugins (agent s)"
    by (simp add: a1_def)
  have ag2: "agent s2 = a1"
    by (simp add: s2_def s1_def a1_def)
  have tr2: "trace s2 = trace s @ [Assign FcurrentlyProcessing a1, Call KInit i err]"
    by (simp add: s2_def s1_def a1_def err_def)
  show ?case
  proof (cases err)
    case (Some m')
    define s3 where "s3 = rollback E i s2"
    have unroll: "initLoop E t i (plug # rest) s =
        (Some (logErrorFmt (PluginName np) m' (clock E (world s3) - t)), s3)"
      using Some unfolding s3_def s2_def s1_def err_def np_def
      by (simp add: initLoop.simps(2) Let_def case_prod_beta)
    from rollback_run [of E i s2] obtain er where
      er: "trace s3 = trace s2 @ er" "agent s3 = agent s2"
        "calls er = map (Pair KClose) (filter (hasClose E (agent s2)) (rev [0..<Suc i]))"
        "snapshots er = []" "view KInit er = []"
        "warnings er = map (closeWarning E (agent s2)) (closeFailures er)"
      unfolding s3_def by blast
    let ?evs = "[Assign FcurrentlyProcessing a1, Call KInit i err] @ er"
    have 1: "trace (snd (initLoop E t i (plug # rest) s)) = trace s @ ?evs"
      by (simp add: unroll er(1) tr2)
    have 2: "plugins (agent (snd (initLoop E t i (plug # rest) s))) = plugins (agent s)"
      "afterInitSuccess (agent (snd (initLoop E t i (plug # rest) s))) = afterInitSuccess (agent s)"
      "initSuccess (agent (snd (initLoop E t i (plug # rest) s))) =
         initSuccess (agent s) @ take 0 (plug # rest)"
      by (simp_all add: unroll er(2) ag2 a1_def)
    have 3: "\<forall>a \<in> set (snapshots ?evs).
        plugins a = plugins (agent s) \<and> afterInitSuccess a = afterInitSuccess (agent s) \<and>
        (\<exists>j\<le>0. initSuccess a = initSuccess (agent s) @ take j (plug # rest))"
      by (simp add: er(4) a1_def)
    have 4: "calls ?evs = map (Pair KInit) [i..<i + 0 + 1] @
            map (Pair KClose) (filter (hasClose E (agent s)) (rev [0..<i + 0 + 1]))"
      by (simp add: er(3) ag2 hasClose_cong [OF pl1])
    have 5: "view KInit ?evs = initView E (agent s) i (i + 0 + 1)"
      by (simp add: er(5) initView_Cons name_i a1_def)
    have 6: "warnings ?evs = map (closeWarning E (agent s)) (closeFailures ?evs)"
      by (simp add: er(6) ag2 closeWarning_cong [OF pl1])
    have 7: "fst (initLoop E t i (plug # rest) s) =
        Some (logErrorFmt (PluginName np) m' (clock E (world s3) - t))"
      by (simp add: unroll)
    show ?thesis
      apply (rule exI [of _ ?evs])
      apply (rule exI [of _ 0])
      apply (simp only: 1 2 7 option.case)
      using 3 4 5 6 by simp
  next
    case None
    define a4 where "a4 = a1\<lparr>initSuccess := initSuccess a1 @ [plug]\<rparr>"
    define s4 where "s4 = assign FinitSuccess (\<lambda>a. a\<lparr>initSuccess := initSuccess a @ [plug]\<rparr>)
        (logmsg InfoLevel [] (logSuccessFmt (PluginName np)) s2)"
    have unroll: "initLoop E t i (plug # rest) s = initLoop E t (Suc i) rest s4"
      using None unfolding s4_def s2_def s1_def err_def np_def
      by (simp add: initLoop.simps(2) Let_def case_prod_beta)
    have ag4: "agent s4 = a4"
      by (simp add: s4_def ag2 a4_def)
    have pl4: "plugins a4 = plugins (agent s)"
      by (simp add: a4_def a1_def)
    have tr4: "trace s4 = trace s @ [Assign FcurrentlyProcessing a1, Call KInit i None,
        Log InfoLevel [] (logSuccessFmt (PluginName np)), Assign FinitSuccess a4]"
      using None by (simp add: s4_def tr2 ag2 a4_def)
    have "drop (Suc i) (plugins (agent s4)) = rest"
      using Cons.prems by (simp add: ag4 pl4 drop_Suc tl_drop [symmetric])
    from Cons.IH [OF this] obtain evs m where
      ih: "trace (snd (initLoop E t (Suc i) rest s4)) = trace s4 @ evs" "m \<le> length rest"
        "plugins (agent (snd (initLoop E t (Suc i) rest s4))) = plugins (agent s4)"
        "afterInitSuccess (agent (snd (initLoop E t (Suc i) rest s4))) = afterInitSuccess (agent s4)"
        "initSuccess (agent (snd (initLoop E t (Suc i) rest s4))) = initSuccess (agent s4) @ take m rest"
        "\<forall>a \<in> set (snapshots evs).
          plugins a = plugins (agent s4) \<and> afterInitSuccess a = afterInitSuccess (agent s4) \<and>
          (\<exists>j\<le>m. initSuccess a = initSuccess (agent s4) @ take j rest)"
        "case fst (initLoop E t (Suc i) rest s4) of
          None \<Rightarrow>
            m = length rest \<and> calls evs = map (Pair KInit) [Suc i..<Suc i + m] \<and>
            view KInit evs = initView E (agent s4) (Suc i) (Suc i + m) \<and>
            warnings evs = [] \<and> closeFailures evs = []
        | Some e \<Rightarrow>
            m < length rest \<and>
            calls evs = map (Pair KInit) [Suc i..<Suc i + m + 1] @
              map (Pair KClose) (filter (hasClose E (agent s4)) (rev [0..<Suc i + m + 1])) \<and>
            view KInit evs = initView E (agent s4) (Suc i) (Suc i + m + 1) \<and>
            warnings evs = map (closeWarning E (agent s4)) (closeFailures evs)"
      by blast
    let ?pre = "[Assign FcurrentlyProcessing a1, Call KInit i None,
        Log InfoLevel [] (logSuccessFmt (PluginName np)), Assign FinitSuccess a4]"
    let ?evs = "?pre @ evs"
    have is4: "initSuccess (agent s4) = initSuccess (agent s) @ [plug]"
      "afterInitSuccess (agent s4) = afterInitSuccess (agent s)"
      "plugins (agent s4) = plugins (agent s)"
      by (simp_all add: ag4 a4_def a1_def)
    have 1: "trace (snd (initLoop E t i (plug # rest) s)) = trace s @ ?evs"
      by (simp add: unroll ih(1) tr4)
    have 2: "plugins (agent (snd (initLoop E t i (plug # rest) s))) = plugins (agent s)"
      "afterInitSuccess (agent (snd (initLoop E t i (plug # rest) s))) = afterInitSuccess (agent s)"
      "initSuccess (agent (snd (initLoop E t i (plug # rest) s))) =
         initSuccess (agent s) @ take (Suc m) (plug # rest)"
      by (simp_all add: unroll ih(3,4,5) is4)
    have 3: "\<forall>a \<in> set (snapshots ?evs).
        plugins a = plugins (agent s) \<and> afterInitSuccess a = afterInitSuccess (agent s) \<and>
        (\<exists>j\<le>Suc m. initSuccess a = initSuccess (agent s) @ take j (plug # rest))"
    proof
      fix a assume "a \<in> set (snapshots ?evs)"
      then consider "a = a1" | "a = a4" | "a \<in> set (snapshots evs)"
        by auto
      then show "plugins a = plugins (agent s) \<and> afterInitSuccess a = afterInitSuccess (agent s) \<and>
        (\<exists>j\<le>Suc m. initSuccess a = initSuccess (agent s) @ take j (plug # rest))"
      proof cases
        case 1
        have "plugins a1 = plugins (agent s)" "afterInitSuccess a1 = afterInitSuccess (agent s)"
          "0 \<le> Suc m" "initSuccess a1 = initSuccess (agent s) @ take 0 (plug # rest)"
          by (simp_all add: a1_def)
        then show ?thesis unfolding 1 by blast
      next
        case 2
        have "plugins a4 = plugins (agent s)" "afterInitSuccess a4 = afterInitSuccess (agent s)"
          "Suc 0 \<le> Suc m" "initSuccess a4 = initSuccess (agent s) @ take (Suc 0) (plug # rest)"
          by (simp_all add: a4_def a1_def)
        then show ?thesis unfolding 2 by blast
      next
        case 3
        with ih(6) obtain j where j: "plugins a = plugins (agent s4)"
          "afterInitSuccess a = afterInitSuccess (agent s4)" "j \<le> m"
          "initSuccess a = initSuccess (agent s4) @ take j rest"
          by blast
        have "plugins a = plugins (agent s)" "afterInitSuccess a = afterInitSuccess (agent s)"
          "Suc j \<le> Suc m" "initSuccess a = initSuccess (agent s) @ take (Suc j) (plug # rest)"
          using j by (simp_all add: is4)
        then show ?thesis by blast
      qed
    qed
    have cong4: "hasClose E (agent s4) = hasClose E (agent s)"
      "closeWarning E (agent s4) = closeWarning E (agent s)"
      "initView E (agent s4) = initView E (agent s)"
      by (rule hasClose_cong closeWarning_cong initView_cong, rule is4(3))+
    have pre: "calls ?pre = [(KInit, i)]" "warnings ?pre = []" "closeFailures ?pre = []"
      "view KInit ?pre = [Marker (nameAt E (agent s) i @ '' Init()''), Called i]"
      by (simp_all add: name_i a1_def a4_def)
    have 4: "case fst (initLoop E t i (plug # rest) s) of
        None \<Rightarrow>
          Suc m = length (plug # rest) \<and> calls ?evs = map (Pair KInit) [i..<i + Suc m] \<and>
          view KInit ?evs = initView E (agent s) i (i + Suc m) \<and>
          warnings ?evs = [] \<and> closeFailures ?evs = []
      | Some e \<Rightarrow>
          Suc m < length (plug # rest) \<and>
          calls ?evs = map (Pair KInit) [i..<i + Suc m + 1] @
            map (Pair KClose) (filter (hasClose E (agent s)) (rev [0..<i + Suc m + 1])) \<and>
          view KInit ?evs = initView E (agent s) i (i + Suc m + 1) \<and>
          warnings ?evs = map (closeWarning E (agent s)) (closeFailures ?evs)"
    proof (cases "fst (initLoop E t (Suc i) rest s4)")
      case None
      with ih(7) have r: "m = length rest" "calls evs = map (Pair KInit) [Suc i..<Suc i + m]"
        "view KInit evs = initView E (agent s) (Suc i) (Suc i + m)"
        "warnings evs = []" "closeFailures evs = []"
        by (simp_all add: cong4)
      have "calls ?evs = map (Pair KInit) [i..<i + Suc m]"
        by (simp only: calls_append pre r(2)) (simp add: upt_conv_Cons del: upt_Suc)
      moreover have "view KInit ?evs = initView E (agent s) i (i + Suc m)"
        by (simp only: view_append pre r(3)) (simp add: initView_Cons)
      moreover have "warnings ?evs = []" "closeFailures ?evs = []"
        by (simp_all only: warnings_append closeFailures_append pre r(4,5) append_Nil)
      ultimately show ?thesis
        using None r(1) by (simp only: unroll option.case) simp
    next
      case (Some e)
      with ih(7) have r: "m < length rest"
        "calls evs = map (Pair KInit) [Suc i..<Suc i + m + 1] @
              map (Pair KClose) (filter (hasClose E (agent s)) (rev [0..<Suc i + m + 1]))"
        "view KInit evs = initView E (agent s) (Suc i) (Suc i + m + 1)"
        "warnings evs = map (closeWarning E (agent s)) (closeFailures evs)"
        by (simp_all add: cong4)
      have "calls ?evs = map (Pair KInit) [i..<i + Suc m + 1] @
            map (Pair KClose) (filter (hasClose E (agent s)) (rev [0..<i + Suc m + 1]))"
        by (simp only: calls_append pre r(2)) (simp add: upt_conv_Cons del: upt_Suc)
      moreover have "view KInit ?evs = initView E (agent s) i (i + Suc m + 1)"
        by (simp only: view_append pre r(3)) (simp add: initView_Cons)
      moreover have "warnings ?evs = map (closeWarning E (agent s)) (closeFailures ?evs)"
        by (simp only: warnings_append closeFailures_append pre r(4) append_Nil)
      ultimately show ?thesis
        using Some r(1) by (simp only: unroll option.case) simp
    qed
    show ?thesis
      apply (rule exI [of _ ?evs])
      apply (rule exI [of _ "Suc m"])
      using 1 2 3 4 ih(2) by simp
  qed
qed

lemma initLoop_Cons_ok:
  assumes "Init (Plugin (heap E plug)) (world s) = (None, w)"
  shows "\<exists>s4. initLoop E t i (plug # rest) s = initLoop E t (Suc i) rest s4 \<and> world s4 = w \<and>
           initSuccess (agent s4) = initSuccess (agent s) @ [plug]"
proof -
  let ?s4 = "assign FinitSuccess (\<lambda>a. a\<lparr>initSuccess := initSuccess a @ [plug]\<rparr>)
      (logmsg InfoLevel [] (logSuccessFmt (PluginName (heap E plug)))
         (snd (invoke KInit i (Init (Plugin (heap E plug)))
            (assign FcurrentlyProcessing
               (\<lambda>a. a\<lparr>currentlyProcessing := PluginName (heap E plug) @ '' Init()''\<rparr>) s))))"
  have "initLoop E t i (plug # rest) s = initLoop E t (Suc i) rest ?s4"
    using assms by (simp add: initLoop.simps(2) Let_def invoke_def)
  moreover have "world ?s4 = w"
    using assms by simp
  moreover have "initSuccess (agent ?s4) = initSuccess (agent s) @ [plug]"
    by simp
  ultimately show ?thesis by blast
qed

lemma initLoop_Cons_err:
  assumes "Init (Plugin (heap E plug)) (world s) = (Some e, w)"
  shows "fst (initLoop E t i (plug # rest) s) =
           Some (logErrorFmt (PluginName (heap E plug)) e
                   (clock E (world (snd (initLoop E t i (plug # rest) s))) - t)) \<and>
         initSuccess (agent (snd (initLoop E t i (plug # rest) s))) = initSuccess (agent s)"
  using assms by (simp add: initLoop.simps(2) Let_def invoke_def)

lemma initLoop_ok:
  "initsOk E ps (world s) = Some w1 \<Longrightarrow>
     fst (initLoop E t i ps s) = None \<and> world (snd (initLoop E t i ps s)) = w1"
proof (induction ps arbitrary: i s)
  case Nil
  then show ?case by simp
next
  case (Cons plug rest)
  from Cons.prems obtain w where
    w: "Init (Plugin (heap E plug)) (world s) = (None, w)" "initsOk E rest w = Some w1"
    by (auto split: prod.splits option.splits)
  from initLoop_Cons_ok [OF w(1), of t i rest] obtain s4 where
    s4: "initLoop E t i (plug # rest) s = initLoop E t (Suc i) rest s4" "world s4 = w"
    by blast
  from Cons.IH [of s4 "Suc i"] w(2) s4(2) show ?case
    by (simp add: s4(1))
qed

lemma initLoop_fail:
  assumes "k < length ps" "initsOk E (take k ps) (world s) = Some w1"
    "Init (Plugin (heap E (ps ! k))) w1 = (Some e, w2)"
  shows "fst (initLoop E t i ps s) =
           Some (logErrorFmt (PluginName (heap E (ps ! k))) e
                   (clock E (world (snd (initLoop E t i ps s))) - t)) \<and>
         initSuccess (agent (snd (initLoop E t i ps s))) = initSuccess (agent s) @ take k ps"
  using assms
proof (induction ps arbitrary: i s k)
  case Nil
  then show ?case by simp
next
  case (Cons plug rest)
  show ?case
  proof (cases k)
    case 0
    with Cons.prems have "Init (Plugin (heap E plug)) (world s) = (Some e, w2)"
      by simp
    from initLoop_Cons_err [OF this, of t i rest] 0 show ?thesis by simp
  next
    case (Suc k')
    with Cons.prems obtain w where
      w: "Init (Plugin (heap E plug)) (world s) = (None, w)"
        "initsOk E (take k' rest) w = Some w1"
      by (auto split: prod.splits option.splits)
    from initLoop_Cons_ok [OF w(1), of t i rest] obtain s4 where
      s4: "initLoop E t i (plug # rest) s = initLoop E t (Suc i) rest s4" "world s4 = w"
        "initSuccess (agent s4) = initSuccess (agent s) @ [plug]"
      by blast
    have "k' < length rest" "initsOk E (take k' rest) (world s4) = Some w1"
      "Init (Plugin (heap E (rest ! k'))) w1 = (Some e, w2)"
      using Cons.prems Suc w(2) s4(2) by simp_all
    from Cons.IH [OF this, of "Suc i"] show ?thesis
      by (simp add: s4(1,3) Suc)
  qed
qed

lemma initPlugins_eq:
  "initPlugins E s =
     (case fst (initLoop E (clock E (world s)) 0 (plugins (agent s)) s) of
        Some e \<Rightarrow> initLoop E (clock E (world s)) 0 (plugins (agent s)) s
      | None \<Rightarrow>
          (None, assign FinitDuration
             (\<lambda>a. a\<lparr>initDuration :=
                    clock E (world (snd (initLoop E (clock E (world s)) 0 (plugins (agent s)) s)))
                      - clock E (world s)\<rparr>)
             (snd (initLoop E (clock E (world s)) 0 (plugins (agent s)) s))))"
  by (auto simp: initPlugins_def Let_def split: prod.splits option.splits)

lemma initPlugins_shape:
  "\<exists>evs m. trace (snd (initPlugins E s)) = trace s @ evs \<and> m \<le> length (plugins (agent s)) \<and>
     plugins (agent (snd (initPlugins E s))) = plugins (agent s) \<and>
     afterInitSuccess (agent (snd (initPlugins E s))) = afterInitSuccess (agent s) \<and>
     initSuccess (agent (snd (initPlugins E s))) =
       initSuccess (agent s) @ take m (plugins (agent s)) \<and>
     (\<forall>a \<in> set (snapshots evs).
        plugins a = plugins (agent s) \<and> afterInitSuccess a = afterInitSuccess (agent s) \<and>
        (\<exists>j\<le>m. initSuccess a = initSuccess (agent s) @ take j (plugins (agent s)))) \<and>
     (case fst (initPlugins E s) of
        None \<Rightarrow>
          m = length (plugins (agent s)) \<and> calls evs = map (Pair KInit) [0..<m] \<and>
          view KInit evs = initView E (agent s) 0 m \<and>
          warnings evs = [] \<and> closeFailures evs = []
      | Some e \<Rightarrow>
          m < length (plugins (agent s)) \<and>
          calls evs = map (Pair KInit) [0..<Suc m] @
            map (Pair KClose) (filter (hasClose E (agent s)) (rev [0..<Suc m])) \<and>
          view KInit evs = initView E (agent s) 0 (Suc m) \<and>
          warnings evs = map (closeWarning E (agent s)) (closeFailures evs))"
proof -
  define t where "t = clock E (world s)"
  define ps where "ps = plugins (agent s)"
  define R where "R = initLoop E t 0 ps s"
  have "drop 0 (plugins (agent s)) = ps"
    by (simp add: ps_def)
  from initLoop_shape [OF this, of E t] obtain evs m where
    sh: "trace (snd R) = trace s @ evs" "m \<le> length ps"
      "plugins (agent (snd R)) = plugins (agent s)"
      "afterInitSuccess (agent (snd R)) = afterInitSuccess (agent s)"
      "initSuccess (agent (snd R)) = initSuccess (agent s) @ take m ps"
      "\<forall>a \<in> set (snapshots evs).
        plugins a = plugins (agent s) \<and> afterInitSuccess a = afterInitSuccess (agent s) \<and>
        (\<exists>j\<le>m. initSuccess a = initSuccess (agent s) @ take j ps)"
      "case fst R of
        None \<Rightarrow>
          m = length ps \<and> calls evs = map (Pair KInit) [0..<0 + m] \<and>
          view KInit evs = initView E (agent s) 0 (0 + m) \<and>
          warnings evs = [] \<and> closeFailures evs = []
      | Some e \<Rightarrow>
          m < length ps \<and>
          calls evs = map (Pair KInit) [0..<0 + m + 1] @
            map (Pair KClose) (filter (hasClose E (agent s)) (rev [0..<0 + m + 1])) \<and>
          view KInit evs = initView E (agent s) 0 (0 + m + 1) \<and>
          warnings evs = map (closeWarning E (agent s)) (closeFailures evs)"
    unfolding R_def by blast
  show ?thesis
  proof (cases "fst R")
    case (Some e)
    then have eq: "initPlugins E s = R"
      unfolding R_def ps_def t_def by (simp add: initPlugins_eq)
    from sh(7) Some have c: "m < length ps"
      "calls evs = map (Pair KInit) [0..<Suc m] @
            map (Pair KClose) (filter (hasClose E (agent s)) (rev [0..<Suc m]))"
      "view KInit evs = initView E (agent s) 0 (Suc m)"
      "warnings evs = map (closeWarning E (agent s)) (closeFailures evs)"
      by simp_all
    show ?thesis
      apply (rule exI [of _ evs])
      apply (rule exI [of _ m])
      using sh(1-6) c Some by (simp add: eq ps_def)
  next
    case None
    define a' where "a' = (agent (snd R))\<lparr>initDuration := clock E (world (snd R)) - t\<rparr>"
    from None have eq: "initPlugins E s =
        (None, assign FinitDuration (\<lambda>a. a\<lparr>initDuration := clock E (world (snd R)) - t\<rparr>) (snd R))"
      unfolding R_def ps_def t_def by (simp add: initPlugins_eq)
    from sh(7) None have c: "m = length ps" "calls evs = map (Pair KInit) [0..<m]"
      "view KInit evs = initView E (agent s) 0 m" "warnings evs = []" "closeFailures evs = []"
      by simp_all
    have a': "plugins a' = plugins (agent s)" "afterInitSuccess a' = afterInitSuccess (agent s)"
      "initSuccess a' = initSuccess (agent s) @ take m ps"
      by (simp_all add: a'_def sh(3,4,5))
    let ?evs = "evs @ [Assign FinitDuration a']"
    have 1: "trace (snd (initPlugins E s)) = trace s @ ?evs"
      by (simp add: eq sh(1) a'_def)
    have 2: "agent (snd (initPlugins E s)) = a'"
      by (simp add: eq a'_def)
    have 3: "\<forall>a \<in> set (snapshots ?evs).
        plugins a = plugins (agent s) \<and> afterInitSuccess a = afterInitSuccess (agent s) \<and>
        (\<exists>j\<le>m. initSuccess a = initSuccess (agent s) @ take j ps)"
      using sh(6) a' by auto
    have 4: "calls ?evs = map (Pair KInit) [0..<m]" "view KInit ?evs = initView E (agent s) 0 m"
      "warnings ?evs = []" "closeFailures ?evs = []"
      by (simp_all add: c)
    have 5: "fst (initPlugins E s) = None"
      by (simp add: eq)
    show ?thesis
      apply (rule exI [of _ ?evs])
      apply (rule exI [of _ m])
      apply (simp only: 1 2 5 option.case a')
      using 3 4 c(1) sh(2) by (simp add: ps_def)
  qed
qed

lemma initPlugins_ok:
  assumes "initsOk E (plugins (agent s)) (world s) = Some w1"
  shows "fst (initPlugins E s) = None \<and> world (snd (initPlugins E s)) = w1"
  using initLoop_ok [OF assms, of "clock E (world s)" 0]
  by (simp add: initPlugins_eq)

lemma initPlugins_fail:
  assumes "k < length (plugins (agent s))"
    "initsOk E (take k (plugins (agent s))) (world s) = Some w1"
    "Init (Plugin (heap E (plugins (agent s) ! k))) w1 = (Some e, w2)"
  shows "fst (initPlugins E s) =
           Some (logErrorFmt (nameAt E (agent s) k) e
                   (clock E (world (snd (initPlugins E s))) - clock E (world s))) \<and>
         initSuccess (agent (snd (initPlugins E s))) =
           initSuccess (agent s) @ take k (plugins (agent s))"
  using initLoop_fail [OF assms, of "clock E (world s)" 0]
  by (simp add: initPlugins_eq nameAt_def)

subsection \<open>Start, when phase 1 fails\<close>





subsection \<open>Failure in phase 1\<close>



text \<open>
  Claim C7. When \<open>Init\<close> fails at index \<open>k\<close> (the plugins before it having initialised),
  \<open>initPlugins\<close> returns the error built with \<open>logErrorFmt\<close> from the name of plugin \<open>k\<close>,
  that plugin's own \<open>Init\<close> error and the time elapsed since the phase began. This holds for
  every behaviour of the \<open>Close\<close> calls of the rollback: their errors enter the result
  nowhere, and each of them is logged as a warning.
\<close>

theorem initPlugins_close_errors_logged_not_returned:
  assumes "k < length (plugins (agent s))"
    and "initsOk E (take k (plugins (agent s))) (world s) = Some w1"
    and "Init (Plugin (heap E (plugins (agent s) ! k))) w1 = (Some e, w2)"
    and "initPlugins E s = (r, s')"
  shows "r = Some (logErrorFmt (nameAt E (agent s) k) e
                     (clock E (world s') - clock E (world s))) \<and>
         warnings (produced s s') =
           map (closeWarning E (agent s)) (closeFailures (produced s s'))"
proof -
  from initPlugins_fail [OF assms(1-3)] assms(4)
  have r: "r = Some (logErrorFmt (nameAt E (agent s) k) e
                     (clock E (world s') - clock E (world s)))"
    by simp
  from initPlugins_shape [of E s] assms(4) r obtain evs where
    evs: "trace s' = trace s @ evs"
      "warnings evs = map (closeWarning E (agent s)) (closeFailures evs)"
    by auto
  have "produced s s' = evs"
    using evs(1) by (rule produced_eq)
  with r evs(2) show ?thesis by simp
qed

theorem initPlugins_close_errors_logged_not_returned_witness:
  "1 < length (plugins (agent (demoState 3))) \<and>
   initsOk (demoEnv [demoPlugin ''A'' None None (Some (Some ''ea'')),
                     demoPlugin ''B'' (Some ''boom'') None (Some None),
                     demoPlugin ''C'' None None None])
     (take 1 (plugins (agent (demoState 3)))) (world (demoState 3)) = Some 1 \<and>
   Init (Plugin (heap (demoEnv [demoPlugin ''A'' None None (Some (Some ''ea'')),
                     demoPlugin ''B'' (Some ''boom'') None (Some None),
                     demoPlugin ''C'' None None None]) (plugins (agent (demoState 3)) ! 1))) 1
     = (Some ''boom'', 2) \<and>
   fst (initPlugins (demoEnv [demoPlugin ''A'' None None (Some (Some ''ea'')),
                     demoPlugin ''B'' (Some ''boom'') None (Some None),
                     demoPlugin ''C'' None None None]) (demoState 3))
     = Some (''plugin B: init error '' @ [CHR 0x27] @ ''boom'' @ [CHR 0x27] @ '', duration 4'') \<and>
   warnings (produced (demoState 3)
      (snd (initPlugins (demoEnv [demoPlugin ''A'' None None (Some (Some ''ea'')),
                     demoPlugin ''B'' (Some ''boom'') None (Some None),
                     demoPlugin ''C'' None None None]) (demoState 3))))
     = [''err closing A ea'']"
proof -
  let ?E = "demoEnv [demoPlugin ''A'' None None (Some (Some ''ea'')),
                     demoPlugin ''B'' (Some ''boom'') None (Some None),
                     demoPlugin ''C'' None None None]"
  let ?s = "demoState 3"
  have h1: "1 < length (plugins (agent ?s))" by code_simp
  have h2: "initsOk ?E (take 1 (plugins (agent ?s))) (world ?s) = Some 1" by code_simp
  have h3: "Init (Plugin (heap ?E (plugins (agent ?s) ! 1))) 1 = (Some ''boom'', 2)" by code_simp
  have run: "initPlugins ?E ?s = (fst (initPlugins ?E ?s), snd (initPlugins ?E ?s))" by simp
  have e1: "logErrorFmt (nameAt ?E (agent ?s) 1) ''boom''
      (clock ?E (world (snd (initPlugins ?E ?s))) - clock ?E (world ?s)) =
      ''plugin B: init error '' @ [CHR 0x27] @ ''boom'' @ [CHR 0x27] @ '', duration 4''"
    by code_simp
  have e2: "map (closeWarning ?E (agent ?s))
      (closeFailures (produced ?s (snd (initPlugins ?E ?s)))) = [''err closing A ea'']"
    by code_simp
  note c = initPlugins_close_errors_logged_not_returned [OF h1 h2 h3 run, unfolded e1 e2]
  from h1 h2 h3 c show ?thesis by blast
qed

end
